theory Spec2Isabelle
  imports Complex_Main "HOL-Library.Sublist" "HOL-Library.Log_Nat"
begin

section \<open>Average Calculator: the sliding-window store and the request handler\<close>

text \<open>
  The development embeds \<^verbatim>\<open>main.py\<close>: the per-category window store with
  \<^verbatim>\<open>update_window\<close>, the helper \<^verbatim>\<open>calc_avg\<close> and the handler
  \<^verbatim>\<open>get_numbers\<close>. Python integers are unbounded, so they are \<open>int\<close>;
  lists are HOL lists; the module-level dictionary \<^verbatim>\<open>number_windows\<close> is
  passed in and returned explicitly.
\<close>

subsection \<open>Data\<close>

text \<open>\<^verbatim>\<open>class NumberType(str, Enum)\<close>: the closed set of categories.\<close>

datatype NumberType = PRIME | FIBONACCI | EVEN | RANDOM

text \<open>\<^verbatim>\<open>MAX_WINDOW_SIZE = 10\<close>.\<close>

definition MAX_WINDOW_SIZE :: nat where
  "MAX_WINDOW_SIZE = 10"

text \<open>
  \<^verbatim>\<open>number_windows\<close> is created with all four keys and no key is ever added or
  deleted, so a lookup never raises KeyError: the dictionary is a total function on
  \<open>NumberType\<close>, and \<^verbatim>\<open>number_windows[k] = v\<close> is a function update.
\<close>

type_synonym windows = "NumberType \<Rightarrow> int list"

definition number_windows :: windows where
  "number_windows = (\<lambda>_. [])"

text \<open>
  The exceptions of the model. \<open>OverflowError\<close> and \<open>ZeroDivisionError\<close> are
  what Python's \<^verbatim>\<open>/\<close> on two integers can raise; \<open>ValueError\<close> is what writing
  a very long integer in decimal raises; \<open>FetchError\<close> stands for any
  \<^verbatim>\<open>Exception\<close> that escapes the awaited upstream call.
\<close>

datatype py_error = OverflowError | ZeroDivisionError | ValueError | FetchError

text \<open>
  \<^verbatim>\<open>class NumberResponse(BaseModel)\<close>. The field \<^verbatim>\<open>avg\<close> is a Python float;
  the model keeps the rational number that the double is.
\<close>

record NumberResponse =
  windowPrevState :: "int list"
  windowCurrState :: "int list"
  numbers :: "int list"
  avg :: rat

subsection \<open>\<^verbatim>\<open>update_window\<close>\<close>

text \<open>
  The loop
  \<^verbatim>\<open>
  new_additions = []
  for num in new_vals:
      if num not in current:
          new_additions.append(num)
  \<close>
  with \<open>new_additions\<close> as the accumulator. The list \<open>current\<close> is not changed
  inside the loop: it is extended only after the loop has finished.
\<close>

fun collect_new :: "int list \<Rightarrow> int list \<Rightarrow> int list \<Rightarrow> int list" where
  "collect_new current new_additions [] = new_additions"
| "collect_new current new_additions (num # rest) =
     (if num \<notin> set current
      then collect_new current (new_additions @ [num]) rest
      else collect_new current new_additions rest)"

text \<open>
  The slice \<^verbatim>\<open>xs[-n:]\<close> for \<open>n \<ge> 0\<close>: Python starts at \<open>len(xs) - n\<close>, clamped
  to \<open>0\<close>; \<^verbatim>\<open>xs[-0:]\<close> is \<^verbatim>\<open>xs[0:]\<close>, the whole list.
\<close>

definition slice_last :: "nat \<Rightarrow> 'a list \<Rightarrow> 'a list" where
  "slice_last n xs = (if n = 0 then xs else drop (length xs - n) xs)"

text \<open>
  \<^verbatim>\<open>update_window(type_key, new_vals)\<close> returns the new dictionary together with the
  tuple \<^verbatim>\<open>(previous, current, new_additions)\<close>.
\<close>

definition update_window ::
  "windows \<Rightarrow> NumberType \<Rightarrow> int list \<Rightarrow> windows \<times> int list \<times> int list \<times> int list" where
  "update_window ws type_key new_vals =
     (let current = ws type_key;
          previous = current;
          new_additions = collect_new current [] new_vals;
          current = current @ new_additions;
          current = (if length current > MAX_WINDOW_SIZE
                     then slice_last MAX_WINDOW_SIZE current else current)
      in (ws(type_key := current), previous, current, new_additions))"

subsection \<open>\<^verbatim>\<open>calc_avg\<close>\<close>

text \<open>
  The builtin \<^verbatim>\<open>sum\<close> adds the elements to \<open>0\<close> from left to right.
\<close>

definition py_sum :: "int list \<Rightarrow> int" where
  "py_sum xs = foldl (+) 0 xs"

text \<open>
  True division \<^verbatim>\<open>a / b\<close> of two Python integers is correctly rounded: it gives the
  double nearest to the exact quotient, a tie going to the even mantissa. A double is
  \<open>m * 2^e\<close> with \<open>|m| < 2^53\<close> and \<open>-1074 \<le> e \<le> 971\<close>; the model represents it by
  that rational number (so \<open>-0.0\<close> and \<open>0.0\<close> are the same value).

  Rounding to the nearest integer, ties to even:
\<close>

definition round_half_even :: "rat \<Rightarrow> int" where
  "round_half_even y =
     (let f = \<lfloor>y\<rfloor>; r = y - of_int f
      in if r < 1 / 2 then f else if 1 / 2 < r then f + 1 else if even f then f else f + 1)"

text \<open>
  The binary exponent \<open>\<lfloor>log\<^sub>2 (A / B)\<rfloor>\<close> of a positive quotient, from the bit lengths
  of \<open>A\<close> and \<open>B\<close> (\<^verbatim>\<open>int.bit_length\<close>), which fix it up to one.
\<close>

definition binary_exponent :: "int \<Rightarrow> int \<Rightarrow> int" where
  "binary_exponent A B =
     (let k = bitlen A - bitlen B
      in if 2 powi k \<le> (of_int A / of_int B :: rat) then k else k - 1)"

text \<open>
  The double nearest to \<open>a / b\<close>: the magnitude of the quotient is rounded to a multiple
  of \<open>2^p\<close>, where \<open>p\<close> leaves 53 bits to the mantissa and is never below the exponent
  \<open>-1074\<close> of the subnormal doubles.
\<close>

definition to_double :: "int \<Rightarrow> int \<Rightarrow> rat" where
  "to_double a b =
     (if a = 0 then 0
      else let p = max (binary_exponent \<bar>a\<bar> \<bar>b\<bar> - 52) (- 1074);
               m = round_half_even (\<bar>of_int a / of_int b\<bar> / 2 powi p)
           in sgn (of_int a / of_int b) * of_int m * 2 powi p)"

text \<open>
  The division raises OverflowError when the rounded quotient would not be finite, that
  is when the magnitude of the quotient reaches \<open>2^1024 - 2^970\<close>, the midpoint between
  the largest double and \<open>2^1024\<close>. A zero divisor raises ZeroDivisionError.
\<close>

definition DBL_OVERFLOW :: rat where
  "DBL_OVERFLOW = 2 ^ 1024 - 2 ^ 970"

definition py_truediv :: "int \<Rightarrow> int \<Rightarrow> py_error + rat" where
  "py_truediv a b =
     (if b = 0 then Inl ZeroDivisionError
      else if DBL_OVERFLOW \<le> \<bar>of_int a / of_int b\<bar> then Inl OverflowError
      else Inr (to_double a b))"

definition calc_avg :: "int list \<Rightarrow> py_error + rat" where
  "calc_avg numbers_in =
     (if numbers_in = [] then Inr 0
      else py_truediv (py_sum numbers_in) (int (length numbers_in)))"

text \<open>
  The set of doubles, to state what \<^verbatim>\<open>calc_avg\<close> returns; it is not part of the
  program.
\<close>

definition is_double :: "rat \<Rightarrow> bool" where
  "is_double d \<longleftrightarrow>
     (\<exists>m e. \<bar>m\<bar> < (2 :: int) ^ 53 \<and> - 1074 \<le> e \<and> e \<le> (971 :: int) \<and> d = of_int m * 2 powi e)"

subsection \<open>\<^verbatim>\<open>get_numbers\<close>\<close>

text \<open>
  The awaited \<^verbatim>\<open>get_numbers_from_api\<close> does input and output, so the handler takes
  its outcome as an argument: \<open>Inl e\<close> when the call raised, \<open>Inr None\<close> when it
  returned \<^verbatim>\<open>None\<close>, \<open>Inr (Some xs)\<close> when it returned the list \<open>xs\<close>.

  The response built from the stored window, used by the no-data branch and by the
  \<^verbatim>\<open>except\<close> handler alike:
  \<^verbatim>\<open>
  window = number_windows[numberid]
  return NumberResponse(windowPrevState=window, windowCurrState=window,
                        numbers=[], avg=calc_avg(window))
  \<close>
\<close>

definition window_response :: "windows \<Rightarrow> NumberType \<Rightarrow> py_error + NumberResponse" where
  "window_response ws numberid =
     (let window = ws numberid
      in case calc_avg window of
           Inl e \<Rightarrow> Inl e
         | Inr a \<Rightarrow> Inr \<lparr>windowPrevState = window, windowCurrState = window,
                         numbers = [], avg = a\<rparr>)"

text \<open>
  The two log lines that format lists of integers,
  \<^verbatim>\<open>logger.info(f"Got new numbers for {numberid}: {new_numbers}")\<close> and
  \<^verbatim>\<open>logger.info(f"Window update: prev={prev}, curr={curr}, added={added}, avg={average}")\<close>,
  build their strings before anything is logged. Since Python 3.11 (and in the security
  releases of the older versions) writing an integer of more than 4300 decimal digits
  raises ValueError, the default of \<^verbatim>\<open>sys.get_int_max_str_digits()\<close>. The other log
  lines format the category or the exception only.
\<close>

definition INT_MAX_STR_DIGITS :: nat where
  "INT_MAX_STR_DIGITS = 4300"

definition printable :: "int list \<Rightarrow> bool" where
  "printable xs = list_all (\<lambda>n. \<bar>n\<bar> < 10 ^ INT_MAX_STR_DIGITS) xs"

text \<open>
  The body of the \<^verbatim>\<open>try\<close> block. It returns the dictionary as it stands when the
  block is left, by \<^verbatim>\<open>return\<close> or by an exception: \<^verbatim>\<open>update_window\<close> has
  already stored the new window when \<^verbatim>\<open>calc_avg(curr)\<close> and the second log line
  are evaluated.
\<close>

definition try_block ::
  "windows \<Rightarrow> NumberType \<Rightarrow> py_error + int list option \<Rightarrow> windows \<times> (py_error + NumberResponse)" where
  "try_block ws numberid fetched =
     (case fetched of
        Inl e \<Rightarrow> (ws, Inl e)
      | Inr None \<Rightarrow> (ws, window_response ws numberid)
      | Inr (Some new_numbers) \<Rightarrow>
          if length new_numbers = 0 then (ws, window_response ws numberid)
          else if \<not> printable new_numbers then (ws, Inl ValueError)
          else
            (case update_window ws numberid new_numbers of
               (ws', prev, curr', added) \<Rightarrow>
                 (case calc_avg curr' of
                    Inl e \<Rightarrow> (ws', Inl e)
                  | Inr average \<Rightarrow>
                      if \<not> printable (prev @ curr' @ added) then (ws', Inl ValueError)
                      else
                        (ws', Inr \<lparr>windowPrevState = prev, windowCurrState = curr',
                                   numbers = added, avg = average\<rparr>))))"

text \<open>
  The handler: \<^verbatim>\<open>except Exception\<close> catches whatever the block raised and builds
  the response from the stored window; an exception raised inside the handler itself is
  not caught by anything and leaves \<^verbatim>\<open>get_numbers\<close>.
\<close>

definition get_numbers ::
  "windows \<Rightarrow> NumberType \<Rightarrow> py_error + int list option \<Rightarrow> windows \<times> (py_error + NumberResponse)" where
  "get_numbers ws numberid fetched =
     (case try_block ws numberid fetched of
        (ws', Inl e) \<Rightarrow> (ws', window_response ws' numberid)
      | (ws', Inr response) \<Rightarrow> (ws', Inr response))"

subsection \<open>The states the program can be in\<close>

text \<open>
  The dictionary starts with four empty windows, and the only assignment to it is the
  one at the end of \<^verbatim>\<open>update_window\<close>.
\<close>

inductive reachable :: "windows \<Rightarrow> bool" where
  start: "reachable number_windows"
| step: "reachable ws \<Longrightarrow> reachable (fst (update_window ws type_key new_vals))"

section \<open>Properties of \<^verbatim>\<open>update_window\<close>\<close>

subsection \<open>What the function computes\<close>

text \<open>The loop keeps, in order, the candidates that are absent from the window it was given.\<close>

lemma collect_new_filter:
  "collect_new current acc new_vals = acc @ filter (\<lambda>num. num \<notin> set current) new_vals"
  by (induction new_vals arbitrary: acc) simp_all

lemma update_window_unfold:
  "update_window ws k new_vals =
     (ws(k := drop (length (ws k @ filter (\<lambda>num. num \<notin> set (ws k)) new_vals) - 10)
                   (ws k @ filter (\<lambda>num. num \<notin> set (ws k)) new_vals)),
      ws k,
      drop (length (ws k @ filter (\<lambda>num. num \<notin> set (ws k)) new_vals) - 10)
           (ws k @ filter (\<lambda>num. num \<notin> set (ws k)) new_vals),
      filter (\<lambda>num. num \<notin> set (ws k)) new_vals)"
  by (simp add: update_window_def collect_new_filter MAX_WINDOW_SIZE_def slice_last_def Let_def)

lemma update_window_previous:
  "update_window ws k new_vals = (ws', previous, current, added) \<Longrightarrow> previous = ws k"
  by (simp add: update_window_unfold)

lemma update_window_added:
  "update_window ws k new_vals = (ws', previous, current, added) \<Longrightarrow>
   added = filter (\<lambda>num. num \<notin> set previous) new_vals"
  by (auto simp add: update_window_unfold)

lemma update_window_current:
  "update_window ws k new_vals = (ws', previous, current, added) \<Longrightarrow>
   current = drop (length (previous @ added) - 10) (previous @ added)"
  by (auto simp add: update_window_unfold)

lemma update_window_stored:
  "update_window ws k new_vals = (ws', previous, current, added) \<Longrightarrow> ws' = ws(k := current)"
  by (auto simp add: update_window_unfold)

text \<open>Every stored window of a reachable dictionary respects the capacity.\<close>

lemma reachable_length: "reachable ws \<Longrightarrow> length (ws k) \<le> 10"
proof (induction arbitrary: k rule: reachable.induct)
  case start
  show ?case by (simp add: number_windows_def)
next
  case (step ws type_key new_vals)
  show ?case
    using step.IH [of k] by (cases "k = type_key") (simp_all add: update_window_unfold)
qed

subsection \<open>Duplicates\<close>

text \<open>
  What does hold about duplicates: the candidates are compared with the window as it
  was when the call started, so a duplicate-free window stays duplicate-free when the
  candidate list itself has no repeated value.
\<close>

lemma update_window_distinct:
  assumes "distinct (ws k)" and "distinct new_vals"
    and "update_window ws k new_vals = (ws', previous, current, added)"
  shows "distinct current"
proof -
  have a: "added = filter (\<lambda>num. num \<notin> set previous) new_vals"
    using assms(3) by (rule update_window_added)
  have "distinct (previous @ added)"
    using assms(1,2) update_window_previous [OF assms(3)] a by auto
  then have "distinct (drop (length (previous @ added) - 10) (previous @ added))"
    by (rule distinct_drop)
  then show ?thesis
    using update_window_current [OF assms(3)] by simp
qed

text \<open>
  C1. Claimed: from a window without duplicates, any candidate list leaves a current
  window without duplicates, a value occurring twice among the candidates being
  appended once. The loop tests membership in \<open>current\<close>, which it never extends, so
  both copies of a repeated new value are appended: from the empty Fibonacci window the
  candidates \<open>1, 1, 2, 3\<close> give the current window \<open>1, 1, 2, 3\<close>.
\<close>

theorem update_window_duplicate_in_current:
  "distinct (number_windows FIBONACCI) \<and>
   update_window number_windows FIBONACCI [1, 1, 2, 3] =
     (number_windows(FIBONACCI := [1, 1, 2, 3]), [], [1, 1, 2, 3], [1, 1, 2, 3]) \<and>
   \<not> distinct [1, 1, 2, 3 :: int]"
  by (simp add: update_window_def number_windows_def MAX_WINDOW_SIZE_def slice_last_def Let_def)

subsection \<open>The list of added values\<close>

text \<open>
  The parts that hold: \<open>added\<close> is a subsequence of the candidates (so a subset, in
  the order of the candidate list), it shares no value with \<open>previous\<close>, and it has no
  repeated value when the candidate list has none.
\<close>

lemma update_window_added_subseq:
  "update_window ws k new_vals = (ws', previous, current, added) \<Longrightarrow> subseq added new_vals"
  by (auto simp add: update_window_unfold)

lemma update_window_added_fresh:
  "update_window ws k new_vals = (ws', previous, current, added) \<Longrightarrow>
   set added \<subseteq> set new_vals \<and> set added \<inter> set previous = {}"
  by (auto simp add: update_window_unfold)

lemma update_window_added_distinct:
  "distinct new_vals \<Longrightarrow> update_window ws k new_vals = (ws', previous, current, added) \<Longrightarrow>
   distinct added"
  by (auto simp add: update_window_unfold)

text \<open>
  C2. Claimed: \<open>added\<close> is a subset of the candidates, disjoint from \<open>previous\<close>,
  without internal duplicates, in the order of first occurrence. The part about internal
  duplicates fails for the reason given under C1: with the window \<open>2, 3, 5\<close> the
  candidates \<open>3, 7, 7\<close> give \<open>added = 7, 7\<close>.
\<close>

theorem update_window_duplicate_in_added:
  "update_window (number_windows(PRIME := [2, 3, 5])) PRIME [3, 7, 7] =
     (number_windows(PRIME := [2, 3, 5, 7, 7]), [2, 3, 5], [2, 3, 5, 7, 7], [7, 7]) \<and>
   \<not> distinct [7, 7 :: int]"
  by (simp add: update_window_def number_windows_def MAX_WINDOW_SIZE_def slice_last_def Let_def)

subsection \<open>Capacity and eviction\<close>

text \<open>
  C3. From a window of at most 10 values, whatever the candidates, the current window
  that \<^verbatim>\<open>update_window\<close> returns has at most 10 values, and it is the window stored
  for the category.
\<close>

theorem update_window_capacity:
  assumes "length (ws k) \<le> 10"
    and "update_window ws k new_vals = (ws', previous, current, added)"
  shows "length current \<le> 10 \<and> ws' k = current \<and> length (ws' k) \<le> 10"
  using assms by (auto simp add: update_window_unfold)

theorem update_window_capacity_witness:
  "length ((number_windows(EVEN := [2, 4, 6, 8, 10, 12, 14, 16, 18])) EVEN) \<le> 10 \<and>
   update_window (number_windows(EVEN := [2, 4, 6, 8, 10, 12, 14, 16, 18])) EVEN [20, 22, 24] =
     (number_windows(EVEN := [6, 8, 10, 12, 14, 16, 18, 20, 22, 24]),
      [2, 4, 6, 8, 10, 12, 14, 16, 18], [6, 8, 10, 12, 14, 16, 18, 20, 22, 24], [20, 22, 24]) \<and>
   length [6, 8, 10, 12, 14, 16, 18, 20, 22, 24 :: int] \<le> 10 \<and>
   (number_windows(EVEN := [6, 8, 10, 12, 14, 16, 18, 20, 22, 24])) EVEN =
     [6, 8, 10, 12, 14, 16, 18, 20, 22, 24]"
proof -
  let ?ws = "number_windows(EVEN := [2, 4, 6, 8, 10, 12, 14, 16, 18])"
  have h: "length (?ws EVEN) \<le> 10" by simp
  have u: "update_window ?ws EVEN [20, 22, 24] =
     (number_windows(EVEN := [6, 8, 10, 12, 14, 16, 18, 20, 22, 24]),
      [2, 4, 6, 8, 10, 12, 14, 16, 18], [6, 8, 10, 12, 14, 16, 18, 20, 22, 24], [20, 22, 24])"
    by (simp add: update_window_def MAX_WINDOW_SIZE_def slice_last_def Let_def)
  show ?thesis
    using h u update_window_capacity [OF h u] by simp
qed

text \<open>
  The candidates that \<^verbatim>\<open>update_window\<close> appends are those absent from the stored
  window, each as often as it occurs in the candidate list (see C1). So the working copy
  is at least as long as the window followed by the new values taken once each.
\<close>

lemma working_copy_exceeds:
  "10 < length (ws k @ remdups (filter (\<lambda>num. num \<notin> set (ws k)) new_vals)) \<Longrightarrow>
   10 < length (ws k @ filter (\<lambda>num. num \<notin> set (ws k)) new_vals)"
proof -
  assume a: "10 < length (ws k @ remdups (filter (\<lambda>num. num \<notin> set (ws k)) new_vals))"
  have b: "length (remdups (filter (\<lambda>num. num \<notin> set (ws k)) new_vals))
           \<le> length (filter (\<lambda>num. num \<notin> set (ws k)) new_vals)"
    by (rule length_remdups_leq)
  from a b show ?thesis
    unfolding length_append by linarith
qed



subsection \<open>Frame and identity\<close>

text \<open>
  C8. \<^verbatim>\<open>update_window\<close> for a category changes the stored window of that category
  only: the window of every other category is the same before and after the call.
\<close>

theorem update_window_frame:
  "k' \<noteq> k \<Longrightarrow> fst (update_window ws k new_vals) k' = ws k'"
  by (simp add: update_window_unfold)

theorem update_window_frame_witness:
  "FIBONACCI \<noteq> PRIME \<and>
   fst (update_window (number_windows(FIBONACCI := [1, 2, 3])) PRIME [2, 3, 5]) FIBONACCI = [1, 2, 3]"
  using update_window_frame [of FIBONACCI PRIME "number_windows(FIBONACCI := [1, 2, 3])" "[2, 3, 5]"]
  by simp

text \<open>
  C9. In every state the program can reach, \<^verbatim>\<open>update_window\<close> with the empty
  candidate list returns the stored window as \<open>previous\<close> and as \<open>current\<close>,
  returns the empty list as \<open>added\<close>, and leaves the whole dictionary as it was.
\<close>

theorem update_window_empty_identity:
  "reachable ws \<Longrightarrow> update_window ws k [] = (ws, ws k, ws k, [])"
  using reachable_length [of ws k] by (simp add: update_window_unfold)

theorem update_window_empty_identity_witness:
  "reachable (number_windows(PRIME := [2, 3, 5])) \<and>
   update_window (number_windows(PRIME := [2, 3, 5])) PRIME [] =
     (number_windows(PRIME := [2, 3, 5]), [2, 3, 5], [2, 3, 5], [])"
proof -
  have "fst (update_window number_windows PRIME [2, 3, 5]) = number_windows(PRIME := [2, 3, 5])"
    by (simp add: update_window_def MAX_WINDOW_SIZE_def slice_last_def number_windows_def Let_def)
  then have r: "reachable (number_windows(PRIME := [2, 3, 5]))"
    using reachable.step [OF reachable.start, of PRIME "[2, 3, 5]"] by simp
  show ?thesis
    using r update_window_empty_identity [OF r, of PRIME] by simp
qed

subsection \<open>The current window as a suffix\<close>

text \<open>
  C10, as claimed: the current window is the last \<open>min(10, len(previous) + len(added))\<close>
  elements of \<open>previous @ added\<close>, hence a suffix of it, "so" the surviving old
  elements keep their order and all newly added elements appear at the tail. The last
  part fails when more than 10 values are added: from the empty window, the candidates
  \<open>1, \<dots>, 11\<close> are all added, and the current window \<open>2, \<dots>, 11\<close> does not
  contain the added value \<open>1\<close>.
\<close>

theorem update_window_added_evicted_counterexample:
  "length (number_windows RANDOM) \<le> 10 \<and>
   update_window number_windows RANDOM [1, 2, 3, 4, 5, 6, 7, 8, 9, 10, 11] =
     (number_windows(RANDOM := [2, 3, 4, 5, 6, 7, 8, 9, 10, 11]),
      [], [2, 3, 4, 5, 6, 7, 8, 9, 10, 11], [1, 2, 3, 4, 5, 6, 7, 8, 9, 10, 11]) \<and>
   (1 :: int) \<in> set [1, 2, 3, 4, 5, 6, 7, 8, 9, 10, 11] \<and>
   (1 :: int) \<notin> set [2, 3, 4, 5, 6, 7, 8, 9, 10, 11]"
  by (simp add: update_window_def number_windows_def MAX_WINDOW_SIZE_def slice_last_def Let_def)

text \<open>
  C10, amended: the current window is the last \<open>min(10, len(previous) + len(added))\<close>
  elements of \<open>previous @ added\<close>, hence a suffix of it; it consists of a suffix of
  \<open>previous\<close> followed by the last (at most 10) elements of \<open>added\<close>; and when at
  most 10 values were added, the whole of \<open>added\<close> is the tail of the current window.
\<close>

theorem update_window_suffix:
  assumes "length (ws k) \<le> 10"
    and "update_window ws k new_vals = (ws', previous, current, added)"
  shows "current = drop (length (previous @ added) - min 10 (length previous + length added))
                        (previous @ added) \<and>
         suffix current (previous @ added) \<and>
         current = drop (length (previous @ added) - 10) previous @ drop (length added - 10) added \<and>
         (length added \<le> 10 \<longrightarrow> suffix added current)"
proof -
  have c: "current = drop (length (previous @ added) - 10) (previous @ added)"
    using assms(2) by (rule update_window_current)
  have m: "length (previous @ added) - min 10 (length previous + length added) =
           length (previous @ added) - 10"
    by simp
  have 1: "current = drop (length (previous @ added) - min 10 (length previous + length added))
                        (previous @ added)"
    using c m by simp
  have 2: "suffix current (previous @ added)"
    unfolding c by (rule suffix_drop)
  have k: "length (previous @ added) - 10 - length previous = length added - 10"
    by simp
  have 3: "current = drop (length (previous @ added) - 10) previous @ drop (length added - 10) added"
    unfolding c drop_append k ..
  have 4: "length added \<le> 10 \<longrightarrow> suffix added current"
    using 3 by (auto simp add: suffix_def)
  from 1 2 3 4 show ?thesis by blast
qed

theorem update_window_suffix_witness:
  "length ((number_windows(FIBONACCI := [1, 2, 3, 5, 8, 13, 21, 34])) FIBONACCI) \<le> 10 \<and>
   update_window (number_windows(FIBONACCI := [1, 2, 3, 5, 8, 13, 21, 34])) FIBONACCI [34, 55, 89, 144] =
     (number_windows(FIBONACCI := [2, 3, 5, 8, 13, 21, 34, 55, 89, 144]),
      [1, 2, 3, 5, 8, 13, 21, 34], [2, 3, 5, 8, 13, 21, 34, 55, 89, 144], [55, 89, 144]) \<and>
   length [55, 89, 144 :: int] \<le> 10 \<and>
   suffix [55, 89, 144 :: int] [2, 3, 5, 8, 13, 21, 34, 55, 89, 144] \<and>
   suffix [2, 3, 5, 8, 13, 21, 34, 55, 89, 144 :: int] ([1, 2, 3, 5, 8, 13, 21, 34] @ [55, 89, 144])"
proof -
  let ?ws = "number_windows(FIBONACCI := [1, 2, 3, 5, 8, 13, 21, 34])"
  have h: "length (?ws FIBONACCI) \<le> 10" by simp
  have u: "update_window ?ws FIBONACCI [34, 55, 89, 144] =
     (number_windows(FIBONACCI := [2, 3, 5, 8, 13, 21, 34, 55, 89, 144]),
      [1, 2, 3, 5, 8, 13, 21, 34], [2, 3, 5, 8, 13, 21, 34, 55, 89, 144], [55, 89, 144])"
    by (simp add: update_window_def MAX_WINDOW_SIZE_def slice_last_def Let_def)
  have l: "length [55, 89, 144 :: int] \<le> 10" by simp
  from h u l update_window_suffix [OF h u] show ?thesis
    by blast
qed

section \<open>Properties of \<^verbatim>\<open>calc_avg\<close>\<close>

subsection \<open>The sum\<close>

lemma foldl_plus_sum_list: "foldl (+) a xs = a + sum_list (xs :: int list)"
  by (induction xs arbitrary: a) simp_all

lemma py_sum_sum_list: "py_sum xs = sum_list xs"
  by (simp add: py_sum_def foldl_plus_sum_list)

text \<open>The divisor is the length of a non-empty list, so the only exception is OverflowError.\<close>

lemma calc_avg_error: "calc_avg xs = Inl e \<Longrightarrow> e = OverflowError"
  by (auto simp add: calc_avg_def py_truediv_def split: if_splits)

subsection \<open>Rounding to the nearest integer\<close>

lemma rhe_cases:
  "round_half_even y = \<lfloor>y\<rfloor> \<and> y - of_int \<lfloor>y\<rfloor> \<le> 1 / 2 \<or>
   round_half_even y = \<lfloor>y\<rfloor> + 1 \<and> 1 / 2 \<le> y - of_int \<lfloor>y\<rfloor>"
  by (auto simp add: round_half_even_def Let_def)

lemma rhe_nearest: "\<bar>of_int (round_half_even y) - y\<bar> \<le> \<bar>of_int k - y\<bar>"
proof -
  have f: "of_int \<lfloor>y\<rfloor> \<le> y" "y < of_int \<lfloor>y\<rfloor> + 1" by linarith+
  have k: "(of_int k :: rat) \<le> of_int \<lfloor>y\<rfloor> \<or> (of_int \<lfloor>y\<rfloor> :: rat) + 1 \<le> of_int k"
  proof (cases "k \<le> \<lfloor>y\<rfloor>")
    case True
    then show ?thesis by simp
  next
    case False
    then have "\<lfloor>y\<rfloor> + 1 \<le> k" by simp
    then have "(of_int (\<lfloor>y\<rfloor> + 1) :: rat) \<le> of_int k" by (simp only: of_int_le_iff)
    then show ?thesis by simp
  qed
  from rhe_cases [of y] show ?thesis
  proof
    assume "round_half_even y = \<lfloor>y\<rfloor> \<and> y - of_int \<lfloor>y\<rfloor> \<le> 1 / 2"
    then have "of_int (round_half_even y) = (of_int \<lfloor>y\<rfloor> :: rat)" "y - of_int \<lfloor>y\<rfloor> \<le> 1 / 2"
      by simp_all
    then show ?thesis using k f by linarith
  next
    assume "round_half_even y = \<lfloor>y\<rfloor> + 1 \<and> 1 / 2 \<le> y - of_int \<lfloor>y\<rfloor>"
    then have "of_int (round_half_even y) = (of_int \<lfloor>y\<rfloor> :: rat) + 1" "1 / 2 \<le> y - of_int \<lfloor>y\<rfloor>"
      by simp_all
    then show ?thesis using k f by linarith
  qed
qed

lemma rhe_ge: "of_int N \<le> y \<Longrightarrow> N \<le> round_half_even y"
proof -
  assume "of_int N \<le> y"
  then have "N \<le> \<lfloor>y\<rfloor>" by (simp add: le_floor_iff)
  then show ?thesis using rhe_cases [of y] by linarith
qed

lemma rhe_le: "y \<le> of_int N \<Longrightarrow> round_half_even y \<le> N"
proof -
  assume y: "y \<le> of_int N"
  from rhe_cases [of y] show ?thesis
  proof
    assume "round_half_even y = \<lfloor>y\<rfloor> \<and> y - of_int \<lfloor>y\<rfloor> \<le> 1 / 2"
    moreover have "\<lfloor>y\<rfloor> \<le> N" using y by (simp add: floor_le_iff)
    ultimately show ?thesis by simp
  next
    assume a: "round_half_even y = \<lfloor>y\<rfloor> + 1 \<and> 1 / 2 \<le> y - of_int \<lfloor>y\<rfloor>"
    then have "(of_int \<lfloor>y\<rfloor> :: rat) < of_int N" using y by linarith
    then have "\<lfloor>y\<rfloor> < N" by (simp only: of_int_less_iff)
    then show ?thesis using a by simp
  qed
qed

lemma rhe_lt_half: "y < of_int N - 1 / 2 \<Longrightarrow> round_half_even y \<le> N - 1"
proof -
  assume y: "y < of_int N - 1 / 2"
  have f: "of_int \<lfloor>y\<rfloor> \<le> y" by simp
  from rhe_cases [of y] show ?thesis
  proof
    assume a: "round_half_even y = \<lfloor>y\<rfloor> \<and> y - of_int \<lfloor>y\<rfloor> \<le> 1 / 2"
    have "(of_int \<lfloor>y\<rfloor> :: rat) < of_int N" using y f by linarith
    then have "\<lfloor>y\<rfloor> < N" by (simp only: of_int_less_iff)
    then show ?thesis using a by simp
  next
    assume a: "round_half_even y = \<lfloor>y\<rfloor> + 1 \<and> 1 / 2 \<le> y - of_int \<lfloor>y\<rfloor>"
    then have "(of_int (\<lfloor>y\<rfloor> + 1) :: rat) < of_int N" using y by simp
    then have "\<lfloor>y\<rfloor> + 1 < N" by (simp only: of_int_less_iff)
    then show ?thesis using a by simp
  qed
qed

lemma bitlen_powi:
  assumes "0 < A"
  shows "2 powi (bitlen A - 1) \<le> (of_int A :: rat)" and "(of_int A :: rat) < 2 powi bitlen A"
proof -
  have b: "2 ^ nat (bitlen A - 1) \<le> A" "A < 2 ^ nat (bitlen A)"
    using bitlen_bounds [OF assms] by simp_all
  have pos: "1 \<le> bitlen A"
    using assms bitlen_eq_zero_iff [of A] bitlen_nonneg [of A] by linarith
  have "(of_int (2 ^ nat (bitlen A - 1)) :: rat) \<le> of_int A"
    using b(1) by (simp only: of_int_le_iff)
  moreover have "(2 :: rat) powi (bitlen A - 1) = 2 ^ nat (bitlen A - 1)"
    using pos by (simp add: power_int_def)
  ultimately show "2 powi (bitlen A - 1) \<le> (of_int A :: rat)" by simp
  have "(of_int A :: rat) < of_int (2 ^ nat (bitlen A))"
    using b(2) by (simp only: of_int_less_iff)
  moreover have "(2 :: rat) powi bitlen A = 2 ^ nat (bitlen A)"
    using pos by (simp add: power_int_def)
  ultimately show "(of_int A :: rat) < 2 powi bitlen A" by simp
qed

lemma binary_exponent_bounds:
  assumes "0 < A" and "0 < B"
  shows "2 powi binary_exponent A B \<le> (of_int A / of_int B :: rat)"
    and "(of_int A / of_int B :: rat) < 2 powi (binary_exponent A B + 1)"
proof -
  let ?k = "bitlen A - bitlen B"
  let ?x = "of_int A / of_int B :: rat"
  have Bpos: "(0 :: rat) < of_int B" using assms(2) by simp
  have lo: "2 powi (?k - 1) \<le> ?x"
  proof -
    have "2 powi (?k - 1) * (of_int B :: rat) \<le> 2 powi (?k - 1) * 2 powi bitlen B"
      using bitlen_powi(2) [OF assms(2)] by (simp add: less_imp_le)
    also have "\<dots> = 2 powi (bitlen A - 1)"
      by (simp add: power_int_add [symmetric])
    also have "\<dots> \<le> of_int A" using bitlen_powi(1) [OF assms(1)] .
    finally show ?thesis using Bpos by (simp add: pos_le_divide_eq)
  qed
  have hi: "?x < 2 powi (?k + 1)"
  proof -
    have "(of_int A :: rat) < 2 powi bitlen A" using bitlen_powi(2) [OF assms(1)] .
    also have "\<dots> = 2 powi (?k + 1) * 2 powi (bitlen B - 1)"
      by (simp add: power_int_add [symmetric])
    also have "\<dots> \<le> 2 powi (?k + 1) * of_int B"
      using bitlen_powi(1) [OF assms(2)] by simp
    finally show ?thesis using Bpos by (simp add: pos_divide_less_eq)
  qed
  show "2 powi binary_exponent A B \<le> ?x"
    using lo by (simp add: binary_exponent_def Let_def)
  show "?x < 2 powi (binary_exponent A B + 1)"
    using hi by (auto simp add: binary_exponent_def Let_def not_le)
qed

subsection \<open>Rounding to the nearest double\<close>

lemma abs_scale:
  fixes c x P :: rat
  assumes "0 < P"
  shows "\<bar>c * P - x\<bar> = \<bar>c - x / P\<bar> * P"
proof -
  have "c * P - x = (c - x / P) * P"
    using assms by (simp add: left_diff_distrib)
  then have "\<bar>c * P - x\<bar> = \<bar>c - x / P\<bar> * \<bar>P\<bar>"
    by (simp only: abs_mult)
  then show ?thesis using assms by simp
qed

lemma grid_nearest:
  fixes x P :: rat
  assumes "0 < P"
  shows "\<bar>of_int (round_half_even (x / P)) * P - x\<bar> \<le> \<bar>of_int k * P - x\<bar>"
proof -
  have "\<bar>of_int (round_half_even (x / P)) - x / P\<bar> * P \<le> \<bar>of_int k - x / P\<bar> * P"
    using rhe_nearest [of "x / P" k] assms by (simp add: mult_right_mono)
  then show ?thesis
    by (simp only: abs_scale [OF assms])
qed

lemma round_positive:
  fixes x :: rat and e :: int
  assumes lo: "2 powi e \<le> x" and hi: "x < 2 powi (e + 1)" and ov: "x < DBL_OVERFLOW"
  defines "p \<equiv> max (e - 52) (- 1074)"
  defines "m \<equiv> round_half_even (x / 2 powi p)"
  shows "is_double (of_int m * 2 powi p)"
    and "is_double d \<Longrightarrow> \<bar>of_int m * 2 powi p - x\<bar> \<le> \<bar>d - x\<bar>"
proof -
  have P: "(0 :: rat) < 2 powi p" by simp
  have xpos: "0 < x" using lo zero_less_power_int [of "2 :: rat" e] by linarith
  have e_le: "e \<le> 1023"
  proof (rule ccontr)
    assume "\<not> e \<le> 1023"
    then have "1024 \<le> e" by simp
    then have "(2 :: rat) powi 1024 \<le> 2 powi e" by (intro power_int_increasing) simp_all
    then show False using lo ov by (simp add: DBL_OVERFLOW_def)
  qed
  have p_hi: "p \<le> 971" and p_lo: "- 1074 \<le> p" and ep: "e + 1 - p \<le> 53"
    using e_le by (simp_all add: p_def)
  have y_hi: "x / 2 powi p < 2 ^ 53"
  proof -
    have "x < 2 powi (e + 1 - p) * 2 powi p"
      using hi by (simp add: power_int_add [symmetric])
    moreover have "(2 :: rat) powi (e + 1 - p) \<le> 2 powi 53"
      using ep by (intro power_int_increasing) simp_all
    ultimately have "x < 2 powi 53 * 2 powi p"
      using P by (meson less_le_trans mult_right_mono less_imp_le)
    then show ?thesis using P by (simp add: pos_divide_less_eq)
  qed
  have m_hi: "m \<le> 2 ^ 53"
    using rhe_le [of "x / 2 powi p" "2 ^ 53"] y_hi by (simp add: m_def)
  have m_lo: "0 \<le> m"
    using rhe_ge [of 0 "x / 2 powi p"] xpos P by (simp add: m_def)
  show "is_double (of_int m * 2 powi p)"
  proof (cases "m < 2 ^ 53")
    case True
    then have "\<bar>m\<bar> < 2 ^ 53" using m_lo by simp
    then show ?thesis using p_hi p_lo unfolding is_double_def by blast
  next
    case False
    then have m: "m = 2 ^ 53" using m_hi by simp
    have p970: "p \<le> 970"
    proof (rule ccontr)
      assume "\<not> p \<le> 970"
      then have p: "p = 971" using p_hi by simp
      have "x / 2 powi p < of_int (2 ^ 53) - 1 / 2"
        using ov by (simp add: p DBL_OVERFLOW_def)
      then have "m \<le> 2 ^ 53 - 1"
        unfolding m_def by (rule rhe_lt_half)
      then show False using m by simp
    qed
    have v: "of_int m * (2 :: rat) powi p = of_int (2 ^ 52) * 2 powi (p + 1)"
      by (simp add: m power_int_add)
    have b: "\<bar>2 ^ 52\<bar> < (2 :: int) ^ 53" by simp
    have r: "- 1074 \<le> p + 1" "p + 1 \<le> 971" using p970 p_lo by simp_all
    from b r v show ?thesis unfolding is_double_def by blast
  qed
  show "\<bar>of_int m * 2 powi p - x\<bar> \<le> \<bar>d - x\<bar>" if "is_double d"
  proof -
    from that obtain n q where n: "\<bar>n\<bar> < (2 :: int) ^ 53" and q: "- 1074 \<le> q" "q \<le> 971"
      and d: "d = of_int n * 2 powi q"
      unfolding is_double_def by blast
    show ?thesis
    proof (cases "p \<le> q")
      case True
      have "(2 :: rat) powi q = 2 powi (q - p) * 2 powi p"
        by (simp add: power_int_add [symmetric])
      also have "(2 :: rat) powi (q - p) = of_int (2 ^ nat (q - p))"
        using True by (simp add: power_int_def)
      finally have "d = of_int (n * 2 ^ nat (q - p)) * 2 powi p"
        by (simp add: d)
      then show ?thesis
        unfolding m_def using grid_nearest [OF P, of x "n * 2 ^ nat (q - p)"] by simp
    next
      case False
      then have qp: "q \<le> p - 1" by simp
      then have pe: "p = e - 52" using q(1) by (simp add: p_def max_def split: if_splits)
      have "\<bar>d\<bar> = of_int \<bar>n\<bar> * 2 powi q"
        by (simp add: d abs_mult)
      also have "\<dots> \<le> 2 ^ 53 * (2 :: rat) powi q"
      proof -
        have "(of_int \<bar>n\<bar> :: rat) \<le> of_int (2 ^ 53)"
          using n by (simp only: of_int_le_iff)
        then show ?thesis by (simp add: mult_right_mono)
      qed
      also have "\<dots> \<le> 2 ^ 53 * (2 :: rat) powi (p - 1)"
        using qp by (intro mult_left_mono power_int_increasing) simp_all
      also have "\<dots> = 2 powi e"
        by (simp add: pe power_int_diff power_int_add)
      finally have d_le: "\<bar>d\<bar> \<le> 2 powi e" .
      have g: "of_int (2 ^ 52) * (2 :: rat) powi p = 2 powi e"
        by (simp add: pe power_int_diff)
      have "\<bar>of_int m * 2 powi p - x\<bar> \<le> \<bar>of_int (2 ^ 52) * 2 powi p - x\<bar>"
        unfolding m_def by (rule grid_nearest [OF P])
      also have "\<dots> = x - 2 powi e"
        using lo by (simp only: g)
      also have "\<dots> \<le> \<bar>d - x\<bar>"
        using d_le lo by linarith
      finally show ?thesis .
    qed
  qed
qed


lemma is_double_uminus: "is_double d \<Longrightarrow> is_double (- d)"
proof -
  assume "is_double d"
  then obtain m e where "\<bar>m\<bar> < (2 :: int) ^ 53" "- 1074 \<le> e" "e \<le> 971" "d = of_int m * 2 powi e"
    unfolding is_double_def by blast
  then have "\<bar>- m\<bar> < (2 :: int) ^ 53" "- 1074 \<le> e" "e \<le> 971" "- d = of_int (- m) * 2 powi e"
    by simp_all
  then show ?thesis unfolding is_double_def by blast
qed

lemma is_double_0: "is_double 0"
proof -
  have "\<bar>0\<bar> < (2 :: int) ^ 53" "- 1074 \<le> (0 :: int)" "(0 :: int) \<le> 971" "(0 :: rat) = of_int 0 * 2 powi 0"
    by simp_all
  then show ?thesis unfolding is_double_def by blast
qed

lemma signed_nearest:
  fixes q r d :: rat
  assumes "q \<noteq> 0" and "\<bar>r - \<bar>q\<bar>\<bar> \<le> \<bar>d - \<bar>q\<bar>\<bar>" and "\<bar>r - \<bar>q\<bar>\<bar> \<le> \<bar>- d - \<bar>q\<bar>\<bar>"
  shows "\<bar>sgn q * r - q\<bar> \<le> \<bar>d - q\<bar>"
proof (cases "0 < q")
  case True
  then have "sgn q = 1" "\<bar>q\<bar> = q" by simp_all
  then show ?thesis using assms(2) by simp
next
  case False
  then have "q < 0" using assms(1) by simp
  then have s: "sgn q = - 1" and ab: "\<bar>q\<bar> = - q" by simp_all
  have "\<bar>sgn q * r - q\<bar> = \<bar>r - \<bar>q\<bar>\<bar>"
    unfolding s ab by linarith
  also have "\<dots> \<le> \<bar>- d - \<bar>q\<bar>\<bar>" by (rule assms(3))
  also have "\<dots> = \<bar>d - q\<bar>" unfolding ab by linarith
  finally show ?thesis .
qed

lemma to_double_nearest:
  assumes b: "b \<noteq> 0" and ov: "\<bar>of_int a / of_int b :: rat\<bar> < DBL_OVERFLOW"
  shows "is_double (to_double a b)"
    and "is_double d \<Longrightarrow> \<bar>to_double a b - of_int a / of_int b\<bar> \<le> \<bar>d - of_int a / of_int b\<bar>"
proof -
  let ?q = "of_int a / of_int b :: rat"
  show "is_double (to_double a b)"
  proof (cases "a = 0")
    case True
    then show ?thesis by (simp add: to_double_def is_double_0)
  next
    case False
    let ?e = "binary_exponent \<bar>a\<bar> \<bar>b\<bar>"
    let ?p = "max (?e - 52) (- 1074)"
    let ?m = "round_half_even (\<bar>?q\<bar> / 2 powi ?p)"
    have x: "\<bar>?q\<bar> = of_int \<bar>a\<bar> / of_int \<bar>b\<bar>" by simp
    have lo: "2 powi ?e \<le> \<bar>?q\<bar>" and hi: "\<bar>?q\<bar> < 2 powi (?e + 1)"
      unfolding x using binary_exponent_bounds [of "\<bar>a\<bar>" "\<bar>b\<bar>"] False b by simp_all
    have r: "is_double (of_int ?m * 2 powi ?p)"
      using round_positive(1) [OF lo hi ov] .
    have t: "to_double a b = sgn ?q * (of_int ?m * 2 powi ?p)"
      using False by (simp add: to_double_def Let_def mult.assoc)
    have "sgn ?q = 1 \<or> sgn ?q = - 1"
      using False b by (simp add: sgn_if)
    then show ?thesis
      using r is_double_uminus [OF r] by (auto simp add: t)
  qed
  show "\<bar>to_double a b - ?q\<bar> \<le> \<bar>d - ?q\<bar>" if d: "is_double d"
  proof (cases "a = 0")
    case True
    then show ?thesis by (simp add: to_double_def)
  next
    case False
    let ?e = "binary_exponent \<bar>a\<bar> \<bar>b\<bar>"
    let ?p = "max (?e - 52) (- 1074)"
    let ?m = "round_half_even (\<bar>?q\<bar> / 2 powi ?p)"
    have x: "\<bar>?q\<bar> = of_int \<bar>a\<bar> / of_int \<bar>b\<bar>" by simp
    have lo: "2 powi ?e \<le> \<bar>?q\<bar>" and hi: "\<bar>?q\<bar> < 2 powi (?e + 1)"
      unfolding x using binary_exponent_bounds [of "\<bar>a\<bar>" "\<bar>b\<bar>"] False b by simp_all
    have t: "to_double a b = sgn ?q * (of_int ?m * 2 powi ?p)"
      using False by (simp add: to_double_def Let_def mult.assoc)
    have n1: "\<bar>of_int ?m * 2 powi ?p - \<bar>?q\<bar>\<bar> \<le> \<bar>d - \<bar>?q\<bar>\<bar>"
      using round_positive(2) [OF lo hi ov d] .
    have n2: "\<bar>of_int ?m * 2 powi ?p - \<bar>?q\<bar>\<bar> \<le> \<bar>- d - \<bar>?q\<bar>\<bar>"
      using round_positive(2) [OF lo hi ov is_double_uminus [OF d]] .
    have "?q \<noteq> 0" using \<open>a \<noteq> 0\<close> b by simp
    then show ?thesis
      unfolding t by (rule signed_nearest [OF _ n1 n2])
  qed
qed

text \<open>No double reaches the overflow bound, and the nearest double to a double is itself.\<close>

lemma is_double_bound: "is_double d \<Longrightarrow> \<bar>d\<bar> < DBL_OVERFLOW"
proof -
  assume "is_double d"
  then obtain m e where m: "\<bar>m\<bar> < (2 :: int) ^ 53" and e: "e \<le> 971" and d: "d = of_int m * 2 powi e"
    unfolding is_double_def by blast
  have "\<bar>d\<bar> = of_int \<bar>m\<bar> * 2 powi e"
    by (simp add: d abs_mult)
  also have "\<dots> \<le> of_int (2 ^ 53 - 1) * (2 :: rat) powi e"
  proof -
    have "\<bar>m\<bar> \<le> 2 ^ 53 - 1" using m by simp
    then have "(of_int \<bar>m\<bar> :: rat) \<le> of_int (2 ^ 53 - 1)" by (simp only: of_int_le_iff)
    then show ?thesis by (rule mult_right_mono) simp
  qed
  also have "\<dots> \<le> of_int (2 ^ 53 - 1) * (2 :: rat) powi 971"
    using e by (intro mult_left_mono power_int_increasing) simp_all
  also have "\<dots> < DBL_OVERFLOW"
    by (simp add: DBL_OVERFLOW_def)
  finally show ?thesis .
qed

lemma to_double_exact:
  assumes "b \<noteq> 0" and "is_double (of_int a / of_int b)"
  shows "to_double a b = of_int a / of_int b"
proof -
  have "\<bar>of_int a / of_int b :: rat\<bar> < DBL_OVERFLOW"
    using assms(2) by (rule is_double_bound)
  then have "\<bar>to_double a b - of_int a / of_int b\<bar> \<le> \<bar>of_int a / of_int b - of_int a / of_int b :: rat\<bar>"
    using assms by (intro to_double_nearest(2))
  then show ?thesis by simp
qed

subsection \<open>The average\<close>

text \<open>
  C6, as claimed: for every sequence of integers the average is the sum divided by the
  length when the sequence is not empty. The result is a double: for \<open>1, 1, 2\<close> the
  function returns \<open>6004799503160661 / 4503599627370496\<close>, the double nearest to \<open>4/3\<close>,
  and for the one-element sequence \<open>2^1024\<close> the division raises OverflowError and no
  value is returned.
\<close>

theorem calc_avg_not_mean_counterexample:
  "[2 ^ 1024] \<noteq> ([] :: int list) \<and>
   calc_avg [2 ^ 1024] = Inl OverflowError \<and>
   calc_avg [2 ^ 1024] \<noteq> Inr (of_int (sum_list [2 ^ 1024]) / of_nat (length [2 ^ 1024 :: int])) \<and>
   calc_avg [1, 1, 2] = Inr (6004799503160661 / 4503599627370496) \<and>
   calc_avg [1, 1, 2] \<noteq> Inr (of_int (sum_list [1, 1, 2]) / of_nat (length [1, 1, 2 :: int]))"
proof -
  have o: "calc_avg [2 ^ 1024] = Inl OverflowError"
    by (simp add: calc_avg_def py_sum_def py_truediv_def DBL_OVERFLOW_def)
  have r: "to_double 4 3 = 6004799503160661 / 4503599627370496"
    by code_simp
  have c: "calc_avg [1, 1, 2] = Inr (6004799503160661 / 4503599627370496)"
    by (simp add: calc_avg_def py_sum_def py_truediv_def DBL_OVERFLOW_def r)
  have e: "[2 ^ 1024] \<noteq> ([] :: int list)"
    by simp
  have o': "calc_avg [2 ^ 1024] \<noteq>
            Inr (of_int (sum_list [2 ^ 1024]) / of_nat (length [2 ^ 1024 :: int]))"
    unfolding o by simp
  have c': "calc_avg [1, 1, 2] \<noteq> Inr (of_int (sum_list [1, 1, 2]) / of_nat (length [1, 1, 2 :: int]))"
    unfolding c by simp
  from e o o' c c' show ?thesis by blast
qed

text \<open>
  C6, amended: the average of the empty sequence is exactly \<open>0\<close>. For a non-empty
  sequence whose mean \<open>sum / len\<close> is smaller in magnitude than \<open>2^1024 - 2^970\<close> the
  function returns a double that is as near to the mean as any double is; when the mean
  is itself a double, the function returns exactly the mean. For a non-empty sequence
  whose mean reaches that bound the function raises OverflowError. The function reads
  nothing but its argument and changes nothing: it is a function of the list alone.
\<close>

theorem calc_avg_mean:
  "calc_avg [] = Inr 0 \<and>
   (xs \<noteq> [] \<longrightarrow> \<bar>of_int (sum_list xs) / of_nat (length xs)\<bar> < DBL_OVERFLOW \<longrightarrow>
      calc_avg xs = Inr (to_double (sum_list xs) (int (length xs))) \<and>
      is_double (to_double (sum_list xs) (int (length xs))) \<and>
      (\<forall>d. is_double d \<longrightarrow>
         \<bar>to_double (sum_list xs) (int (length xs)) - of_int (sum_list xs) / of_nat (length xs)\<bar>
         \<le> \<bar>d - of_int (sum_list xs) / of_nat (length xs)\<bar>)) \<and>
   (zs \<noteq> [] \<longrightarrow> is_double (of_int (sum_list zs) / of_nat (length zs)) \<longrightarrow>
      calc_avg zs = Inr (of_int (sum_list zs) / of_nat (length zs))) \<and>
   (ys \<noteq> [] \<longrightarrow> DBL_OVERFLOW \<le> \<bar>of_int (sum_list ys) / of_nat (length ys)\<bar> \<longrightarrow>
      calc_avg ys = Inl OverflowError)"
proof -
  have 1: "calc_avg [] = Inr 0"
    by (simp add: calc_avg_def)
  have 2: "calc_avg xs = Inr (to_double (sum_list xs) (int (length xs))) \<and>
      is_double (to_double (sum_list xs) (int (length xs))) \<and>
      (\<forall>d. is_double d \<longrightarrow>
         \<bar>to_double (sum_list xs) (int (length xs)) - of_int (sum_list xs) / of_nat (length xs)\<bar>
         \<le> \<bar>d - of_int (sum_list xs) / of_nat (length xs)\<bar>)"
    if n: "xs \<noteq> []" and r: "\<bar>of_int (sum_list xs) / of_nat (length xs) :: rat\<bar> < DBL_OVERFLOW"
  proof -
    have l: "int (length xs) \<noteq> 0" using n by simp
    have r': "\<bar>of_int (sum_list xs) / of_int (int (length xs)) :: rat\<bar> < DBL_OVERFLOW"
      using r by simp
    have a: "calc_avg xs = Inr (to_double (sum_list xs) (int (length xs)))"
      using n r by (simp add: calc_avg_def py_sum_sum_list py_truediv_def)
    have b: "is_double (to_double (sum_list xs) (int (length xs)))"
      using l r' by (rule to_double_nearest(1))
    have c: "\<bar>to_double (sum_list xs) (int (length xs)) - of_int (sum_list xs) / of_nat (length xs)\<bar>
         \<le> \<bar>d - of_int (sum_list xs) / of_nat (length xs)\<bar>" if "is_double d" for d
      using to_double_nearest(2) [OF l r' that] by simp
    from a b c show ?thesis by blast
  qed
  have 3: "calc_avg zs = Inr (of_int (sum_list zs) / of_nat (length zs))"
    if n: "zs \<noteq> []" and r: "is_double (of_int (sum_list zs) / of_nat (length zs))"
  proof -
    have l: "int (length zs) \<noteq> 0" using n by simp
    have r': "is_double (of_int (sum_list zs) / of_int (int (length zs)))"
      using r by simp
    have "\<bar>of_int (sum_list zs) / of_nat (length zs) :: rat\<bar> < DBL_OVERFLOW"
      using r by (rule is_double_bound)
    then have "calc_avg zs = Inr (to_double (sum_list zs) (int (length zs)))"
      using n by (simp add: calc_avg_def py_sum_sum_list py_truediv_def)
    then show ?thesis
      using to_double_exact [OF l r'] by simp
  qed
  have 4: "calc_avg ys = Inl OverflowError"
    if "ys \<noteq> []" and "DBL_OVERFLOW \<le> \<bar>of_int (sum_list ys) / of_nat (length ys) :: rat\<bar>"
    using that by (simp add: calc_avg_def py_sum_sum_list py_truediv_def)
  from 1 2 3 4 show ?thesis by blast
qed

theorem calc_avg_mean_witness:
  "calc_avg [] = Inr 0 \<and>
   [1, 1, 2] \<noteq> ([] :: int list) \<and>
   \<bar>of_int (sum_list [1, 1, 2]) / of_nat (length [1, 1, 2 :: int]) :: rat\<bar> < DBL_OVERFLOW \<and>
   calc_avg [1, 1, 2] = Inr (to_double (sum_list [1, 1, 2]) (int (length [1, 1, 2 :: int]))) \<and>
   is_double (to_double (sum_list [1, 1, 2]) (int (length [1, 1, 2 :: int]))) \<and>
   [3, 4, 5, 6, 7, 8, 9, 10, 11, 12] \<noteq> ([] :: int list) \<and>
   is_double (of_int (sum_list [3, 4, 5, 6, 7, 8, 9, 10, 11, 12]) /
              of_nat (length [3, 4, 5, 6, 7, 8, 9, 10, 11, 12 :: int])) \<and>
   calc_avg [3, 4, 5, 6, 7, 8, 9, 10, 11, 12] =
     Inr (of_int (sum_list [3, 4, 5, 6, 7, 8, 9, 10, 11, 12]) /
          of_nat (length [3, 4, 5, 6, 7, 8, 9, 10, 11, 12 :: int])) \<and>
   [2 ^ 1024, 2 ^ 1024] \<noteq> ([] :: int list) \<and>
   DBL_OVERFLOW \<le> \<bar>of_int (sum_list [2 ^ 1024, 2 ^ 1024]) /
     of_nat (length [2 ^ 1024, 2 ^ 1024 :: int]) :: rat\<bar> \<and>
   calc_avg [2 ^ 1024, 2 ^ 1024] = Inl OverflowError"
proof -
  have x: "[1, 1, 2] \<noteq> ([] :: int list)" by simp
  have xr: "\<bar>of_int (sum_list [1, 1, 2]) / of_nat (length [1, 1, 2 :: int]) :: rat\<bar> < DBL_OVERFLOW"
    by (simp add: DBL_OVERFLOW_def)
  have z: "[3, 4, 5, 6, 7, 8, 9, 10, 11, 12] \<noteq> ([] :: int list)" by simp
  have "\<bar>15\<bar> < (2 :: int) ^ 53" "- 1074 \<le> (- 1 :: int)" "(- 1 :: int) \<le> 971"
    "of_int (sum_list [3, 4, 5, 6, 7, 8, 9, 10, 11, 12]) /
       of_nat (length [3, 4, 5, 6, 7, 8, 9, 10, 11, 12 :: int]) = (of_int 15 * 2 powi (- 1) :: rat)"
    by (simp_all add: power_int_minus)
  then have zr: "is_double (of_int (sum_list [3, 4, 5, 6, 7, 8, 9, 10, 11, 12]) /
              of_nat (length [3, 4, 5, 6, 7, 8, 9, 10, 11, 12 :: int]))"
    unfolding is_double_def by blast
  have y: "[2 ^ 1024, 2 ^ 1024] \<noteq> ([] :: int list)" by simp
  have yr: "DBL_OVERFLOW \<le> \<bar>of_int (sum_list [2 ^ 1024, 2 ^ 1024]) /
     of_nat (length [2 ^ 1024, 2 ^ 1024 :: int]) :: rat\<bar>"
    by (simp add: DBL_OVERFLOW_def)
  from x xr z zr y yr
    calc_avg_mean [of "[1, 1, 2]" "[3, 4, 5, 6, 7, 8, 9, 10, 11, 12]" "[2 ^ 1024, 2 ^ 1024]"]
  show ?thesis by blast
qed

section \<open>Properties of \<^verbatim>\<open>get_numbers\<close>\<close>

subsection \<open>What the handler does when the average is representable\<close>

text \<open>
  Without new data (the fetch raised, returned \<^verbatim>\<open>None\<close> or returned the empty
  list) the dictionary is not touched.
\<close>

lemma get_numbers_no_data_state:
  "fetched = Inl e \<or> fetched = Inr None \<or> fetched = Inr (Some []) \<Longrightarrow>
   fst (get_numbers ws k fetched) = ws"
  by (auto simp add: get_numbers_def try_block_def split: sum.splits prod.splits)

text \<open>
  Without new data, and when the average of the stored window is a double, the response
  shows the stored window twice, no added number and that average.
\<close>

lemma get_numbers_no_data_response:
  "fetched = Inl e \<or> fetched = Inr None \<or> fetched = Inr (Some []) \<Longrightarrow>
   calc_avg (ws k) = Inr a \<Longrightarrow>
   get_numbers ws k fetched =
     (ws, Inr \<lparr>windowPrevState = ws k, windowCurrState = ws k, numbers = [], avg = a\<rparr>)"
  by (auto simp add: get_numbers_def try_block_def window_response_def Let_def)

text \<open>
  With new data whose integers can be written in decimal, the response is what
  \<^verbatim>\<open>update_window\<close> returned.
\<close>

lemma get_numbers_update_response:
  assumes "new_numbers \<noteq> []" and "printable new_numbers"
    and "update_window ws k new_numbers = (ws', previous, current, added)"
    and "calc_avg current = Inr a" and "printable (previous @ current @ added)"
  shows "get_numbers ws k (Inr (Some new_numbers)) =
     (ws', Inr \<lparr>windowPrevState = previous, windowCurrState = current, numbers = added, avg = a\<rparr>)"
  using assms by (simp add: get_numbers_def try_block_def)

text \<open>
  New data with an integer of more than 4300 digits never reaches \<^verbatim>\<open>update_window\<close>:
  the first log line raises, and the handler answers from the stored window.
\<close>

lemma get_numbers_unprintable:
  assumes "new_numbers \<noteq> []" and "\<not> printable new_numbers"
  shows "get_numbers ws k (Inr (Some new_numbers)) = (ws, window_response ws k)"
  using assms by (simp add: get_numbers_def try_block_def)

text \<open>
  When \<^verbatim>\<open>calc_avg(curr)\<close> raises after the update, the handler answers from the
  window that the update has stored; and the answer from a window is the error that
  \<^verbatim>\<open>calc_avg\<close> raises on it.
\<close>

lemma get_numbers_avg_raises:
  assumes "new_numbers \<noteq> []" and "printable new_numbers"
    and "update_window ws k new_numbers = (ws', previous, current, added)"
    and "calc_avg current = Inl e"
  shows "get_numbers ws k (Inr (Some new_numbers)) = (ws', window_response ws' k)"
  using assms by (simp add: get_numbers_def try_block_def)

lemma window_response_raises:
  "calc_avg (ws k) = Inl e \<Longrightarrow> window_response ws k = Inl e"
  by (simp add: window_response_def)

text \<open>
  The handler fails only with OverflowError, and only when the average of the window
  stored at the end is not a double.
\<close>

lemma get_numbers_error:
  assumes "get_numbers ws k fetched = (ws', Inl e)"
  shows "e = OverflowError \<and> calc_avg (ws' k) = Inl OverflowError"
proof -
  have "window_response ws' k = Inl e"
    using assms
    by (auto simp add: get_numbers_def split: sum.splits prod.splits)
  then have "calc_avg (ws' k) = Inl e"
    by (auto simp add: window_response_def Let_def split: sum.splits)
  then show ?thesis
    using calc_avg_error by blast
qed

text \<open>The handler keeps the program inside its reachable states.\<close>

lemma try_block_state:
  "fst (try_block ws k fetched) = ws \<or>
   (\<exists>xs. fst (try_block ws k fetched) = fst (update_window ws k xs))"
proof (cases "\<exists>xs. fetched = Inr (Some xs) \<and> xs \<noteq> [] \<and> printable xs")
  case True
  then obtain xs where "fetched = Inr (Some xs)" "xs \<noteq> []" "printable xs" by blast
  then have "fst (try_block ws k fetched) = fst (update_window ws k xs)"
    by (simp add: try_block_def split: sum.splits prod.splits)
  then show ?thesis by blast
next
  case False
  then have "fst (try_block ws k fetched) = ws"
    by (auto simp add: try_block_def split: sum.splits option.splits)
  then show ?thesis by blast
qed

lemma get_numbers_state:
  "fst (get_numbers ws k fetched) = ws \<or>
   (\<exists>xs. fst (get_numbers ws k fetched) = fst (update_window ws k xs))"
proof -
  have "fst (get_numbers ws k fetched) = fst (try_block ws k fetched)"
    by (simp add: get_numbers_def split: sum.splits prod.splits)
  then show ?thesis using try_block_state [of ws k fetched] by simp
qed

lemma get_numbers_reachable: "reachable ws \<Longrightarrow> reachable (fst (get_numbers ws k fetched))"
proof -
  assume r: "reachable ws"
  from get_numbers_state [of ws k fetched] show ?thesis
  proof
    assume "fst (get_numbers ws k fetched) = ws"
    then show ?thesis using r by simp
  next
    assume "\<exists>xs. fst (get_numbers ws k fetched) = fst (update_window ws k xs)"
    then obtain xs where "fst (get_numbers ws k fetched) = fst (update_window ws k xs)" ..
    then show ?thesis using reachable.step [OF r, of k xs] by simp
  qed
qed

subsection \<open>Where the handler raises\<close>

lemma reachable_huge: "reachable (number_windows(RANDOM := [2 ^ 1024]))"
proof -
  have "fst (update_window number_windows RANDOM [2 ^ 1024]) = number_windows(RANDOM := [2 ^ 1024])"
    by (simp add: update_window_def MAX_WINDOW_SIZE_def slice_last_def number_windows_def Let_def)
  then show ?thesis
    using reachable.step [OF reachable.start, of RANDOM "[2 ^ 1024]"] by simp
qed

text \<open>
  C7. Claimed: for a valid category the handler never raises; every exception of the
  fetch or update stage is turned into the response built from the stored window. The
  \<^verbatim>\<open>except\<close> handler computes \<^verbatim>\<open>calc_avg(window)\<close> itself, outside any
  \<^verbatim>\<open>try\<close>. When the fetch returns the one number \<open>2^1024\<close>, \<^verbatim>\<open>update_window\<close>
  stores it, \<^verbatim>\<open>calc_avg(curr)\<close> raises OverflowError, the handler catches it, and
  \<^verbatim>\<open>calc_avg(window)\<close> raises the same error again on the window just stored: the
  request fails.
\<close>

theorem get_numbers_overflow_escapes:
  "get_numbers number_windows RANDOM (Inr (Some [2 ^ 1024])) =
     (number_windows(RANDOM := [2 ^ 1024]), Inl OverflowError)"
proof -
  have "(2 :: int) ^ 1024 < 2 ^ 4300"
    by (rule power_strict_increasing) simp_all
  also have "(2 :: int) ^ 4300 \<le> 10 ^ 4300"
    by (rule power_mono) simp_all
  finally have lt: "(2 :: int) ^ 1024 < 10 ^ 4300" .
  have "\<bar>(2 :: int) ^ 1024\<bar> = 2 ^ 1024"
    by (rule abs_of_nonneg) simp
  then have "\<bar>(2 :: int) ^ 1024\<bar> < 10 ^ 4300"
    using lt by (simp only:)
  then have p: "printable [2 ^ 1024]"
    by (simp only: printable_def INT_MAX_STR_DIGITS_def list.pred_inject simp_thms)
  have u: "update_window number_windows RANDOM [2 ^ 1024] =
     (number_windows(RANDOM := [2 ^ 1024]), [], [2 ^ 1024], [2 ^ 1024])"
    by (simp add: update_window_def MAX_WINDOW_SIZE_def slice_last_def number_windows_def Let_def)
  have c: "calc_avg [2 ^ 1024] = Inl OverflowError"
    by (simp add: calc_avg_def py_sum_def py_truediv_def DBL_OVERFLOW_def)
  have n: "[2 ^ 1024] \<noteq> ([] :: int list)"
    by simp
  have "calc_avg ((number_windows(RANDOM := [2 ^ 1024])) RANDOM) = Inl OverflowError"
    unfolding fun_upd_same by (rule c)
  then have w: "window_response (number_windows(RANDOM := [2 ^ 1024])) RANDOM = Inl OverflowError"
    by (rule window_response_raises)
  show ?thesis
    unfolding get_numbers_avg_raises [OF n p u c] w ..
qed

text \<open>
  C5. Claimed: when the fetch fails or returns the empty list, the stored window is
  unchanged and the handler succeeds with the stored window as previous and current
  state, no added number and the average of the window. The dictionary is indeed
  unchanged, but on the window \<open>2^1024\<close>, which the request above has left in the
  dictionary, \<^verbatim>\<open>calc_avg(window)\<close> raises in the no-data branch and again in the
  \<^verbatim>\<open>except\<close> handler: the request fails instead of succeeding.
\<close>

theorem get_numbers_no_data_overflow:
  "reachable (number_windows(RANDOM := [2 ^ 1024])) \<and>
   get_numbers (number_windows(RANDOM := [2 ^ 1024])) RANDOM (Inr None) =
     (number_windows(RANDOM := [2 ^ 1024]), Inl OverflowError) \<and>
   get_numbers (number_windows(RANDOM := [2 ^ 1024])) RANDOM (Inr (Some [])) =
     (number_windows(RANDOM := [2 ^ 1024]), Inl OverflowError)"
  using reachable_huge
  by (simp add: get_numbers_def try_block_def window_response_def
      calc_avg_def py_sum_def py_truediv_def DBL_OVERFLOW_def Let_def)

end
